theory Spec2Isabelle
  imports Main "HOL-Library.AList" "HOL-Library.Sublist"
begin

section \<open>Python strings\<close>

text \<open>
  A Python \<open>str\<close> is a sequence of Unicode code points.  The bullet marker of
  \<open>write_section\<close> lies outside Latin-1, so a string is modelled as the list of its code
  points, each a natural number.  ASCII literals are written \<open>py ''...''\<close>.
\<close>

type_synonym pystr = "nat list"

definition py :: "string \<Rightarrow> pystr" where
  "py s = map of_char s"

definition nl :: pystr where
  "nl = [10]"

text \<open>
  \<open>str.isspace\<close> for one code point: the 29 code points Python 3 treats as whitespace
  (U+0009..U+000D, U+001C..U+0020, U+0085, U+00A0, U+1680, U+2000..U+200A, U+2028, U+2029,
  U+202F, U+205F, U+3000).
\<close>

definition isspace :: "nat \<Rightarrow> bool" where
  "isspace c =
     ((9 \<le> c \<and> c \<le> 13) \<or> (28 \<le> c \<and> c \<le> 32) \<or> c = 133 \<or> c = 160 \<or> c = 5760 \<or>
      (8192 \<le> c \<and> c \<le> 8202) \<or> c = 8232 \<or> c = 8233 \<or> c = 8239 \<or> c = 8287 \<or> c = 12288)"

text \<open>\<open>s.strip()\<close>: leading and trailing whitespace removed.\<close>

definition strip :: "pystr \<Rightarrow> pystr" where
  "strip s = rev (dropWhile isspace (rev (dropWhile isspace s)))"

text \<open>\<open>s.split(sep)\<close> for a one-character separator: never the empty list.\<close>

fun str_split :: "nat \<Rightarrow> pystr \<Rightarrow> pystr list" where
  "str_split sep [] = [[]]"
| "str_split sep (c # cs) =
     (if c = sep then [] # str_split sep cs
      else (case str_split sep cs of
              [] \<Rightarrow> [[c]]
            | l # ls \<Rightarrow> (c # l) # ls))"

text \<open>\<open>sep.join(xs)\<close>.\<close>

fun str_join :: "pystr \<Rightarrow> pystr list \<Rightarrow> pystr" where
  "str_join sep [] = []"
| "str_join sep [x] = x"
| "str_join sep (x # y # ys) = x @ sep @ str_join sep (y # ys)"

text \<open>\<open>s.startswith(p)\<close>.\<close>

definition startswith :: "pystr \<Rightarrow> pystr \<Rightarrow> bool" where
  "startswith s p = (take (length p) s = p)"

section \<open>Errors\<close>

text \<open>
  A raised exception is a value carrying its message \<open>str(e)\<close>; a function that can raise
  returns \<open>error + 'a\<close>, with \<open>Inl\<close> for the exception.  These are the exceptions of
  class \<open>Exception\<close>, which \<open>except Exception\<close> and a bare \<open>except\<close> both catch;
  interrupts of the process (\<open>KeyboardInterrupt\<close>, \<open>SystemExit\<close>) are not modelled.
\<close>

datatype error = Exception pystr

section \<open>The content partitioner (the scanning loop of \<open>format_resume\<close>)\<close>

text \<open>
  \<open>sections\<close> is a Python dict: insertion-ordered, and assignment to an existing key keeps
  the key's place.  That is an association list under \<open>AList.update\<close>.
\<close>

type_synonym sections = "(pystr \<times> pystr) list"

definition section_names :: "pystr list" where
  "section_names =
     [py ''Professional Profile'', py ''Recent Experience'', py ''Education'', py ''Skills'']"

definition initial_sections :: sections where
  "initial_sections = map (\<lambda>n. (n, [])) section_names"

text \<open>Truth value of \<open>current_section\<close>, which is \<open>None\<close> or a string.\<close>

fun truthy :: "pystr option \<Rightarrow> bool" where
  "truthy None = False"
| "truthy (Some s) = (s \<noteq> [])"

text \<open>
  \<open>if current_section and current_content:
       sections[current_section] = '\n'.join(current_content)\<close>
\<close>

fun flush :: "sections \<Rightarrow> pystr option \<Rightarrow> pystr list \<Rightarrow> sections" where
  "flush secs None cc = secs"
| "flush secs (Some s) cc =
     (if s \<noteq> [] \<and> cc \<noteq> [] then AList.update s (str_join nl cc) secs else secs)"

text \<open>
  The \<open>for line in content.split('\n')\<close> loop, over the remaining lines, with the loop's
  three variables \<open>sections\<close>, \<open>current_section\<close> and \<open>current_content\<close>.
\<close>

fun scan_lines ::
  "pystr list \<Rightarrow> sections \<Rightarrow> pystr option \<Rightarrow> pystr list \<Rightarrow> sections \<times> pystr option \<times> pystr list"
where
  "scan_lines [] secs cs cc = (secs, cs, cc)"
| "scan_lines (raw # rest) secs cs cc =
     (let line = strip raw in
        if line \<in> set (map fst secs) then scan_lines rest (flush secs cs cc) (Some line) []
        else if line \<noteq> [] \<and> truthy cs then scan_lines rest secs cs (cc @ [line])
        else scan_lines rest secs cs cc)"

text \<open>Lines 223 to 246 of \<open>format_resume\<close>: the dict of the four sections after the scan.\<close>

definition partition_sections :: "pystr \<Rightarrow> sections" where
  "partition_sections content =
     (case scan_lines (str_split 10 content) initial_sections None [] of
        (secs, cs, cc) \<Rightarrow> flush secs cs cc)"

section \<open>The document (python-docx, at its interface)\<close>

text \<open>
  A document body is the list of its paragraphs; a paragraph has its runs and an optional
  style name; a run has its content, its bold flag and an optional font size in points.
  The content of a run is a sequence of text elements, tabs and line breaks.
\<close>

datatype run_item = W_t pystr | W_tab | W_br

record run =
  r_content :: "run_item list"
  bold :: bool
  font_size :: "nat option"

record docx_paragraph =
  runs :: "run list"
  style :: "pystr option"

text \<open>
  Setting the text of a run (\<open>run.text = text\<close>, which \<open>add_run(text)\<close> and
  \<open>add_paragraph(text)\<close> do for a non-empty text): python-docx goes through the
  characters, makes a tab element of each \<open>\t\<close>, a line break of each \<open>\n\<close> and each
  \<open>\r\<close>, and a text element of each maximal stretch of other characters.
\<close>

fun text_items :: "pystr \<Rightarrow> run_item list" where
  "text_items [] = []"
| "text_items (c # cs) =
     (if c = 9 then W_tab # text_items cs
      else if c = 13 \<or> c = 10 then W_br # text_items cs
      else (case text_items cs of
              W_t t # rest \<Rightarrow> W_t (c # t) # rest
            | rest \<Rightarrow> W_t [c] # rest))"

text \<open>
  The text of a text element goes to lxml, which raises for a string that is not XML
  compatible.  It first encodes the string as UTF-8, which raises \<open>UnicodeEncodeError\<close> for
  a lone surrogate (U+D800 to U+DFFF), with the position of the first one and of the
  last of the surrogates that follow it; then it raises \<open>ValueError\<close> for a NUL, for a
  control character below U+0020 other than tab, newline and carriage return, and for
  U+FFFE and U+FFFF.
\<close>

definition surrogate :: "nat \<Rightarrow> bool" where
  "surrogate c = (55296 \<le> c \<and> c \<le> 57343)"

definition xml_char :: "nat \<Rightarrow> bool" where
  "xml_char c = ((c = 9 \<or> c = 10 \<or> c = 13 \<or> 32 \<le> c) \<and> c \<noteq> 65534 \<and> c \<noteq> 65535)"

definition lxml_message :: pystr where
  "lxml_message =
     py ''All strings must be XML compatible: Unicode or ASCII, no NULL bytes or control characters''"

text \<open>A number in decimal, and the four lower-case hexadecimal digits of \<open>%04x\<close>.\<close>

function decimal :: "nat \<Rightarrow> pystr" where
  "decimal n = (if n < 10 then [48 + n] else decimal (n div 10) @ [48 + n mod 10])"
  by pat_completeness auto
termination
  by (relation "measure id") auto

definition hex_digit :: "nat \<Rightarrow> nat" where
  "hex_digit d = (if d < 10 then 48 + d else 87 + d)"

definition hex4 :: "nat \<Rightarrow> pystr" where
  "hex4 c =
     [hex_digit (c div 4096 mod 16), hex_digit (c div 256 mod 16),
      hex_digit (c div 16 mod 16), hex_digit (c mod 16)]"

text \<open>
  \<open>str(e)\<close> of the \<open>UnicodeEncodeError\<close> for a string with a surrogate: one message
  for a single surrogate, another for several in a row.
\<close>

definition encode_message :: "pystr \<Rightarrow> pystr" where
  "encode_message t =
     (let start = length (takeWhile (\<lambda>c. \<not> surrogate c) t);
          bad = takeWhile surrogate (drop start t)
      in if length bad = 1
         then [39] @ py ''utf-8'' @ [39] @ py '' codec can't encode character '' @
              [39, 92] @ py ''u'' @ hex4 (hd bad) @ [39] @ py '' in position '' @
              decimal start @ py '': surrogates not allowed''
         else [39] @ py ''utf-8'' @ [39] @ py '' codec can't encode characters in position '' @
              decimal start @ py ''-'' @ decimal (start + length bad - 1) @
              py '': surrogates not allowed'')"

definition add_t_error :: "pystr \<Rightarrow> error option" where
  "add_t_error t =
     (if list_ex surrogate t then Some (Exception (encode_message t))
      else if list_all xml_char t then None
      else Some (Exception lxml_message))"

text \<open>The exception of setting a text, if any: that of its first text element that has one.\<close>

fun items_error :: "run_item list \<Rightarrow> error option" where
  "items_error [] = None"
| "items_error (W_t t # rest) =
     (case add_t_error t of Some e \<Rightarrow> Some e | None \<Rightarrow> items_error rest)"
| "items_error (W_tab # rest) = items_error rest"
| "items_error (W_br # rest) = items_error rest"

definition set_text_error :: "pystr \<Rightarrow> error option" where
  "set_text_error text = items_error (text_items text)"

text \<open>
  Reading a run's text back (\<open>run.text\<close>): a tab element reads as \<open>\t\<close> and a line
  break as \<open>\n\<close>, also one that was written as \<open>\r\<close>.
\<close>

fun item_text :: "run_item \<Rightarrow> pystr" where
  "item_text (W_t t) = t"
| "item_text W_tab = [9]"
| "item_text W_br = [10]"

definition run_text :: "run \<Rightarrow> pystr" where
  "run_text r = concat (map item_text (r_content r))"

text \<open>
  The paragraph made by \<open>add_paragraph(text, style)\<close>: python-docx adds a run only for a
  non-empty text (\<open>if text: paragraph.add_run(text)\<close>), so \<open>add_paragraph()\<close> and
  \<open>add_paragraph('')\<close> are the same empty paragraph.  The call raises when setting the
  text raises.
\<close>

definition new_paragraph :: "pystr \<Rightarrow> pystr option \<Rightarrow> docx_paragraph" where
  "new_paragraph text sty =
     \<lparr>runs = (if text = [] then []
              else [\<lparr>r_content = text_items text, bold = False, font_size = None\<rparr>]),
      style = sty\<rparr>"

definition add_paragraph ::
  "docx_paragraph list \<Rightarrow> pystr \<Rightarrow> pystr option \<Rightarrow> error + docx_paragraph list"
where
  "add_paragraph doc text sty =
     (case set_text_error text of
        Some e \<Rightarrow> Inl e
      | None \<Rightarrow> Inr (doc @ [new_paragraph text sty]))"

text \<open>
  Lines 118 to 121: \<open>heading = add_paragraph(); run = heading.add_run(title);
  run.bold = True; run.font.size = Pt(14)\<close>.  \<open>add_run\<close> sets the text of the run, and
  raises when that raises.
\<close>

definition heading_paragraph :: "pystr \<Rightarrow> docx_paragraph" where
  "heading_paragraph title =
     \<lparr>runs = [\<lparr>r_content = text_items title, bold = True, font_size = Some 14\<rparr>], style = None\<rparr>"

definition add_heading :: "docx_paragraph list \<Rightarrow> pystr \<Rightarrow> error + docx_paragraph list" where
  "add_heading doc title =
     (case set_text_error title of
        Some e \<Rightarrow> Inl e
      | None \<Rightarrow> Inr (doc @ [heading_paragraph title]))"

definition spacer_paragraph :: docx_paragraph where
  "spacer_paragraph = new_paragraph [] None"

definition list_bullet :: "pystr option" where
  "list_bullet = Some (py ''List Bullet'')"

text \<open>
  The marker literal of line 128 as the source file has it: the three code points
  U+00E2, U+20AC, U+00A2.
\<close>

definition bullet_marker :: pystr where
  "bullet_marker = [226, 8364, 162]"

section \<open>The LLM and the section formatter\<close>

text \<open>
  What the formatter returns is duck-typed: \<open>write_section\<close> tests it with
  \<open>isinstance\<close> for \<open>str\<close>, then \<open>list\<close>, and does nothing for any other value.
\<close>

datatype formatted = PyStr pystr | PyList "pystr list" | PyOther

text \<open>
  The LLM is external: \<open>llm.invoke(prompt).content\<close> is any function of the prompts sent
  before and the prompt, that raises or answers.  The state of the client is the log of
  the prompts it was invoked with.
\<close>

type_synonym llm = "pystr list \<Rightarrow> pystr \<Rightarrow> error + formatted"

text \<open>\<open>self.section_prompt.format(section_name=..., content=...)\<close>, lines 83 to 98.\<close>

definition indent :: pystr where
  "indent = py ''            ''"

definition section_prompt_format :: "pystr \<Rightarrow> pystr \<Rightarrow> pystr" where
  "section_prompt_format section_name content =
     nl @ indent @ py ''Format the following '' @ section_name @
       py '' section content for a resume, ensuring it is:'' @ nl @
     indent @ py ''1. Concise and impactful'' @ nl @
     indent @ py ''2. Uses action verbs'' @ nl @
     indent @ py ''3. Quantifies achievements where possible'' @ nl @
     indent @ py ''4. Is ATS-friendly'' @ nl @
     indent @ py ''5. Maintains professional tone'' @ nl @
     nl @
     indent @ py ''Content:'' @ nl @
     indent @ content @ nl @
     nl @
     indent @ py ''Return only the formatted content without any additional commentary.'' @ nl @
     indent"

text \<open>
  \<open>_format_section_content\<close>, lines 100 to 111, on the client's log: the result (or
  the exception) and the log afterwards.
\<close>

definition format_section_content ::
  "llm \<Rightarrow> pystr list \<Rightarrow> pystr \<Rightarrow> pystr \<Rightarrow> (error + formatted) \<times> pystr list"
where
  "format_section_content client log section_name content =
     (if content = [] then (Inr (PyStr content), log)
      else (let prompt = section_prompt_format section_name content
            in (client log prompt, log @ [prompt])))"

section \<open>The document writer\<close>

record writer =
  document :: "docx_paragraph list"
  output_file :: pystr
  normal_font :: "pystr \<times> nat"
  llm_log :: "pystr list"
  saved :: "docx_paragraph list option"

text \<open>
  \<open>ResumeWriter()\<close>: an empty document, the default output file, Calibri 11 as the
  Normal style's font.  \<open>saved\<close> is the content of the output file once \<open>save\<close> wrote it.
\<close>

definition ResumeWriter :: writer where
  "ResumeWriter =
     \<lparr>document = [], output_file = py ''output.docx'', normal_font = (py ''Calibri'', 11),
      llm_log = [], saved = None\<rparr>"

text \<open>
  The loop of lines 126 to 134 over the lines of a string result.  An exception of
  \<open>add_paragraph\<close> ends the loop.
\<close>

fun add_lines :: "docx_paragraph list \<Rightarrow> pystr list \<Rightarrow> error + docx_paragraph list" where
  "add_lines doc [] = Inr doc"
| "add_lines doc (para # rest) =
     (if strip para \<noteq> [] then
        (if startswith (strip para) bullet_marker
         then (case add_paragraph doc (strip (drop 1 (strip para))) list_bullet of
                 Inl e \<Rightarrow> Inl e
               | Inr doc' \<Rightarrow> add_lines doc' rest)
         else (case add_paragraph doc (strip para) None of
                 Inl e \<Rightarrow> Inl e
               | Inr doc' \<Rightarrow> add_lines doc' rest))
      else add_lines doc rest)"

text \<open>The loop of lines 136 and 137 over the items of a list result.\<close>

fun add_items :: "docx_paragraph list \<Rightarrow> pystr list \<Rightarrow> error + docx_paragraph list" where
  "add_items doc [] = Inr doc"
| "add_items doc (item # rest) =
     (case add_paragraph doc item list_bullet of
        Inl e \<Rightarrow> Inl e
      | Inr doc' \<Rightarrow> add_items doc' rest)"

text \<open>
  \<open>write_section\<close>, lines 113 to 139.  \<open>self._format_section_content\<close> is looked up
  on the object, so a test can put a stub in its place: the formatter is a parameter, and
  \<open>write_section\<close> is the instance with the method of the class.  The exception of the
  formatter or of a python-docx call is the exception of \<open>write_section\<close>.
\<close>

type_synonym formatter = "pystr list \<Rightarrow> pystr \<Rightarrow> pystr \<Rightarrow> (error + formatted) \<times> pystr list"

definition write_section_with :: "formatter \<Rightarrow> writer \<Rightarrow> pystr \<Rightarrow> pystr \<Rightarrow> error + writer" where
  "write_section_with fmt w title content =
     (case fmt (llm_log w) title content of
        (Inl e, log') \<Rightarrow> Inl e
      | (Inr formatted_content, log') \<Rightarrow>
          (case add_heading (document w) title of
             Inl e \<Rightarrow> Inl e
           | Inr doc1 \<Rightarrow>
               (case (case formatted_content of
                        PyStr s \<Rightarrow> add_lines doc1 (str_split 10 s)
                      | PyList items \<Rightarrow> add_items doc1 items
                      | PyOther \<Rightarrow> Inr doc1) of
                  Inl e \<Rightarrow> Inl e
                | Inr doc2 \<Rightarrow>
                    (case add_paragraph doc2 [] None of
                       Inl e \<Rightarrow> Inl e
                     | Inr doc3 \<Rightarrow> Inr (w\<lparr>document := doc3, llm_log := log'\<rparr>)))))"

definition write_section :: "llm \<Rightarrow> writer \<Rightarrow> pystr \<Rightarrow> pystr \<Rightarrow> error + writer" where
  "write_section client = write_section_with (format_section_content client)"

text \<open>
  \<open>save\<close>, lines 141 and 142: the output file then holds the document.  Writing the file
  is taken to succeed.
\<close>

definition save :: "writer \<Rightarrow> writer" where
  "save w = w\<lparr>saved := Some (document w)\<rparr>"

text \<open>
  Lines 249 to 251: \<open>for section, content in sections.items(): if content:
  writer.write_section(section, content)\<close>.  An exception ends the run.
\<close>

fun write_sections :: "formatter \<Rightarrow> writer \<Rightarrow> sections \<Rightarrow> error + writer" where
  "write_sections fmt w [] = Inr w"
| "write_sections fmt w ((section, content) # rest) =
     (if content \<noteq> [] then
        (case write_section_with fmt w section content of
           Inl e \<Rightarrow> Inl e
         | Inr w' \<Rightarrow> write_sections fmt w' rest)
      else write_sections fmt w rest)"

text \<open>
  \<open>format_resume\<close>, lines 219 to 253: a new writer, the partition of the content, the
  sections written in the dict's order, the document saved.  The result is the writer
  at the end, or the exception that ended the run (then nothing was saved).
\<close>

definition format_resume_with :: "formatter \<Rightarrow> pystr \<Rightarrow> error + writer" where
  "format_resume_with fmt content =
     (case write_sections fmt ResumeWriter (partition_sections content) of
        Inl e \<Rightarrow> Inl e
      | Inr w \<Rightarrow> Inr (save w))"


section \<open>The LLM client's construction (\<open>get_llm\<close>)\<close>




section \<open>The DOCX reader tool\<close>

text \<open>The loop of lines 57 to 59 over the texts of the document's paragraphs.\<close>

fun collect_text :: "pystr list \<Rightarrow> pystr list \<Rightarrow> pystr list" where
  "collect_text full_text [] = full_text"
| "collect_text full_text (t # rest) =
     (if strip t \<noteq> [] then collect_text (full_text @ [strip t]) rest
      else collect_text full_text rest)"

text \<open>
  \<open>DocxReaderTool._run\<close>, lines 52 to 62.  Opening the document is external: a function of
  the path that raises or gives the paragraphs' texts.
\<close>

definition DocxReaderTool_run :: "(pystr \<Rightarrow> error + pystr list) \<Rightarrow> pystr \<Rightarrow> error + pystr" where
  "DocxReaderTool_run Document file_path =
     (case Document file_path of
        Inr paragraphs \<Rightarrow> Inr (str_join nl (collect_text [] paragraphs))
      | Inl (Exception msg) \<Rightarrow> Inr (py ''Error reading DOCX file: '' @ msg))"

section \<open>Invariants of the scan\<close>

text \<open>
  Predicates of the proofs, on the lines the loop has read so far.  A closed block is a
  heading line, the lines after it up to the next heading line, and that heading; an open
  block is a heading line and all the lines after it, none of them a heading.
\<close>


definition closed_block :: "pystr list \<Rightarrow> pystr \<Rightarrow> pystr \<Rightarrow> bool" where
  "closed_block seen n c =
     (\<exists>pre h body post. seen = pre @ h # body @ post \<and> strip h = n \<and>
        (\<forall>l\<in>set body. strip l \<notin> set section_names) \<and>
        post \<noteq> [] \<and> strip (hd post) \<in> set section_names \<and>
        c = str_join nl (filter (\<lambda>t. t \<noteq> []) (map strip body)))"

definition open_block :: "pystr list \<Rightarrow> pystr \<Rightarrow> pystr list \<Rightarrow> bool" where
  "open_block seen n cc =
     (\<exists>pre h body. seen = pre @ h # body \<and> strip h = n \<and>
        (\<forall>l\<in>set body. strip l \<notin> set section_names) \<and>
        cc = filter (\<lambda>t. t \<noteq> []) (map strip body))"

definition scan_inv :: "pystr list \<Rightarrow> sections \<Rightarrow> pystr option \<Rightarrow> pystr list \<Rightarrow> bool" where
  "scan_inv seen secs cs cc =
     (map fst secs = section_names \<and>
      (\<forall>n c. map_of secs n = Some c \<longrightarrow> c \<noteq> [] \<longrightarrow> closed_block seen n c) \<and>
      (\<forall>n. cs = Some n \<longrightarrow> n \<in> set section_names \<and> open_block seen n cc))"

section \<open>What the writer appends, and the headings of a document\<close>

text \<open>
  What one pass of the loop of lines 126 to 134 appends for a line and the text it
  sets, and what lines 124 to 137 append for a formatted result: the loops
  \<open>add_lines\<close> and \<open>add_items\<close> are proved to append these when they do not raise.
\<close>


definition line_paragraphs :: "pystr \<Rightarrow> docx_paragraph list" where
  "line_paragraphs para =
     (if strip para \<noteq> [] then
        (if startswith (strip para) bullet_marker
         then [new_paragraph (strip (drop 1 (strip para))) list_bullet]
         else [new_paragraph (strip para) None])
      else [])"

definition line_text :: "pystr \<Rightarrow> pystr" where
  "line_text para =
     (if strip para \<noteq> [] then
        (if startswith (strip para) bullet_marker
         then strip (drop 1 (strip para))
         else strip para)
      else [])"

definition body_paragraphs :: "formatted \<Rightarrow> docx_paragraph list" where
  "body_paragraphs formatted_content =
     (case formatted_content of
        PyStr s \<Rightarrow> concat (map line_paragraphs (str_split 10 s))
      | PyList items \<Rightarrow> map (\<lambda>item. new_paragraph item list_bullet) items
      | PyOther \<Rightarrow> [])"

text \<open>
  A heading paragraph is known by its single bold 14 point run, which no other paragraph
  of the writer has; \<open>heading_titles\<close> reads the section titles of a document, in
  the document's order.  A text reads back with each carriage return as a newline.
\<close>

definition cr_to_lf :: "pystr \<Rightarrow> pystr" where
  "cr_to_lf t = map (\<lambda>c. if c = 13 then 10 else c) t"

definition is_heading :: "docx_paragraph \<Rightarrow> bool" where
  "is_heading p = (case runs p of [r] \<Rightarrow> bold r \<and> font_size r = Some 14 | _ \<Rightarrow> False)"

definition heading_titles :: "docx_paragraph list \<Rightarrow> pystr list" where
  "heading_titles doc = map (\<lambda>p. concat (map run_text (runs p))) (filter is_heading doc)"

section \<open>The section formatter on empty and blank content\<close>

text \<open>
  Claim C3, as stated: for every section name and every empty or blank (whitespace-only)
  content, the section formatter returns the content unchanged and invokes the LLM zero
  times.  The guard of line 101 is \<open>if not content\<close>, which holds of the empty string
  only: on the one-space content the LLM is invoked and its answer returned.
\<close>

theorem format_section_content_blank_counterexample:
  "\<not> (\<forall>client log section_name content. strip content = [] \<longrightarrow>
        format_section_content client log section_name content = (Inr (PyStr content), log))"
proof
  assume a: "\<forall>client log section_name content. strip content = [] \<longrightarrow>
        format_section_content client log section_name content = (Inr (PyStr content), log)"
  have "strip [32] = []"
    by (simp add: strip_def isspace_def)
  with a have "format_section_content (\<lambda>log p. Inr PyOther) [] [] [32] = (Inr (PyStr [32]), [])"
    by blast
  then show False
    by (simp add: format_section_content_def)
qed

text \<open>
  Claim C3, amended: for every section name and the empty content, the section
  formatter returns the content unchanged and the client's log is as it was (zero
  invocations), whatever the client.  A content that is not empty, also one of whitespace
  only, is sent to the LLM: the log grows by exactly the prompt made of the section name
  and the content, and the result is the client's answer, or exception, to that prompt.
\<close>

theorem format_section_content_calls:
  "(content = [] \<longrightarrow>
      format_section_content client log section_name content = (Inr (PyStr []), log)) \<and>
   (content \<noteq> [] \<longrightarrow>
      format_section_content client log section_name content =
        (client log (section_prompt_format section_name content),
         log @ [section_prompt_format section_name content])) \<and>
   (content \<noteq> [] \<and> strip content = [] \<longrightarrow>
      length (snd (format_section_content client log section_name content)) = Suc (length log))"
  by (simp add: format_section_content_def Let_def)

theorem format_section_content_calls_witness:
  "format_section_content (\<lambda>log p. Inr (PyStr (py ''Python''))) [] (py ''Skills'') [] =
     (Inr (PyStr []), []) \<and>
   format_section_content (\<lambda>log p. Inr (PyStr (py ''Python''))) [] (py ''Skills'') [32] =
     (Inr (PyStr (py ''Python'')), [section_prompt_format (py ''Skills'') [32]]) \<and>
   length (snd (format_section_content (\<lambda>log p. Inr (PyStr (py ''Python''))) []
     (py ''Skills'') [32])) = 1"
proof -
  have b: "strip [32] = []"
    by (simp add: strip_def isspace_def)
  show ?thesis
    using
      format_section_content_calls
        [of "[]" "\<lambda>log p. Inr (PyStr (py ''Python''))" "[]" "py ''Skills''"]
      format_section_content_calls
        [of "[32]" "\<lambda>log p. Inr (PyStr (py ''Python''))" "[]" "py ''Skills''"]
      b
    by simp
qed

section \<open>The DOCX reader tool never raises\<close>

lemma collect_text_eq:
  "collect_text acc ps = acc @ filter (\<lambda>t. t \<noteq> []) (map strip ps)"
  by (induction ps arbitrary: acc) simp_all

text \<open>
  Claim C9: for every file path the run operation of the DOCX reading tool returns a
  string and never raises.  If opening the document raises an exception with message
  \<open>msg\<close>, the result is \<open>Error reading DOCX file: \<close> followed by \<open>msg\<close>; if it
  succeeds, the result is the paragraph texts that are not blank, each trimmed, in their
  order, joined with newlines.
\<close>

theorem DocxReaderTool_run_total:
  "(\<exists>s. DocxReaderTool_run Document file_path = Inr s) \<and>
   (Document file_path = Inl (Exception msg) \<longrightarrow>
      DocxReaderTool_run Document file_path = Inr (py ''Error reading DOCX file: '' @ msg)) \<and>
   (Document file_path = Inr paragraphs \<longrightarrow>
      DocxReaderTool_run Document file_path =
        Inr (str_join nl (filter (\<lambda>t. t \<noteq> []) (map strip paragraphs))))"
  by (simp add: DocxReaderTool_run_def collect_text_eq split: sum.splits error.splits)

theorem DocxReaderTool_run_total_witness:
  "DocxReaderTool_run
     (\<lambda>p. if p = py ''bad.docx'' then Inl (Exception (py ''no such file''))
          else Inr [py '' Jane Doe '', py ''  '', py ''Engineer''])
     (py ''bad.docx'') = Inr (py ''Error reading DOCX file: no such file'') \<and>
   DocxReaderTool_run
     (\<lambda>p. if p = py ''bad.docx'' then Inl (Exception (py ''no such file''))
          else Inr [py '' Jane Doe '', py ''  '', py ''Engineer''])
     (py ''example.docx'') = Inr (py ''Jane Doe'' @ nl @ py ''Engineer'')"
  using
    DocxReaderTool_run_total [of
      "\<lambda>p. if p = py ''bad.docx'' then Inl (Exception (py ''no such file''))
          else Inr [py '' Jane Doe '', py ''  '', py ''Engineer'']"
      "py ''bad.docx''" "py ''no such file''" "[]"]
    DocxReaderTool_run_total [of
      "\<lambda>p. if p = py ''bad.docx'' then Inl (Exception (py ''no such file''))
          else Inr [py '' Jane Doe '', py ''  '', py ''Engineer'']"
      "py ''example.docx''" "[]" "[py '' Jane Doe '', py ''  '', py ''Engineer'']"]
  by (simp add: py_def strip_def isspace_def nl_def)

section \<open>The partitioner's scan\<close>


lemma section_names_nonempty: "n \<in> set section_names \<Longrightarrow> n \<noteq> []"
  by (auto simp: section_names_def py_def)

lemma distinct_section_names: "distinct section_names"
  by (simp add: section_names_def py_def)

lemma keys_initial_sections: "map fst initial_sections = section_names"
  by (simp add: initial_sections_def comp_def)

lemma str_split_nonempty: "str_split sep s \<noteq> []"
  by (induction s) (auto split: list.splits)

lemma str_split_append:
  "str_split sep (a @ sep # b) = str_split sep a @ str_split sep b"
proof (induction a)
  case Nil
  show ?case by simp
next
  case (Cons c cs)
  obtain l ls where "str_split sep cs = l # ls"
    using str_split_nonempty [of sep cs] by (cases "str_split sep cs") auto
  with Cons show ?case by simp
qed

lemma flush_keys:
  "(\<And>s. cs = Some s \<Longrightarrow> s \<in> set (map fst secs)) \<Longrightarrow> map fst (flush secs cs cc) = map fst secs"
  by (cases cs) (auto simp: update_keys)

lemma scan_lines_append:
  "scan_lines (a @ b) secs cs cc =
     (case scan_lines a secs cs cc of (s1, c1, k1) \<Rightarrow> scan_lines b s1 c1 k1)"
  by (induction a arbitrary: secs cs cc) (simp_all add: Let_def)

lemma scan_lines_keys:
  "(\<And>s. cs = Some s \<Longrightarrow> s \<in> set (map fst secs)) \<Longrightarrow>
   scan_lines ls secs cs cc = (secs', cs', cc') \<Longrightarrow>
   map fst secs' = map fst secs \<and> (\<forall>s. cs' = Some s \<longrightarrow> s \<in> set (map fst secs))"
proof (induction ls arbitrary: secs cs cc)
  case Nil
  then show ?case by auto
next
  case (Cons raw rest)
  show ?case
  proof (cases "strip raw \<in> set (map fst secs)")
    case True
    have k: "map fst (flush secs cs cc) = map fst secs"
      using Cons.prems(1) by (rule flush_keys)
    have "scan_lines rest (flush secs cs cc) (Some (strip raw)) [] = (secs', cs', cc')"
      using Cons.prems(2) True by (simp add: Let_def)
    from Cons.IH [OF _ this] True k show ?thesis by simp
  next
    case False
    show ?thesis
    proof (cases "strip raw \<noteq> [] \<and> truthy cs")
      case True
      with False Cons.prems(2) have "scan_lines rest secs cs (cc @ [strip raw]) = (secs', cs', cc')"
        by (simp add: Let_def)
      from Cons.IH [OF _ this] Cons.prems(1) show ?thesis by simp
    next
      case f2: False
      with False Cons.prems(2) have "scan_lines rest secs cs cc = (secs', cs', cc')"
        by (simp add: Let_def)
      from Cons.IH [OF _ this] Cons.prems(1) show ?thesis by simp
    qed
  qed
qed

lemma scan_lines_no_heading:
  "\<forall>l\<in>set ls. strip l \<notin> set (map fst secs) \<Longrightarrow>
   scan_lines ls secs cs cc =
     (secs, cs, if truthy cs then cc @ filter (\<lambda>t. t \<noteq> []) (map strip ls) else cc)"
  by (induction ls arbitrary: cc) (simp_all add: Let_def)

lemma scan_lines_other_section:
  "\<forall>l\<in>set ls. strip l \<noteq> n \<Longrightarrow> cs \<noteq> Some n \<Longrightarrow>
   scan_lines ls secs cs cc = (secs', cs', cc') \<Longrightarrow>
   map_of secs' n = map_of secs n \<and> cs' \<noteq> Some n"
proof (induction ls arbitrary: secs cs cc)
  case Nil
  then show ?case by simp
next
  case (Cons raw rest)
  have fl: "map_of (flush secs cs cc) n = map_of secs n"
    using Cons.prems(2) by (cases cs) (auto simp: update_conv')
  show ?case
  proof (cases "strip raw \<in> set (map fst secs)")
    case True
    with Cons.prems(3)
    have "scan_lines rest (flush secs cs cc) (Some (strip raw)) [] = (secs', cs', cc')"
      by (simp add: Let_def)
    from Cons.IH [OF _ _ this] Cons.prems(1) fl show ?thesis by simp
  next
    case False
    show ?thesis
    proof (cases "strip raw \<noteq> [] \<and> truthy cs")
      case True
      with False Cons.prems(3) have "scan_lines rest secs cs (cc @ [strip raw]) = (secs', cs', cc')"
        by (simp add: Let_def)
      from Cons.IH [OF _ _ this] Cons.prems(1,2) show ?thesis by simp
    next
      case f2: False
      with False Cons.prems(3) have "scan_lines rest secs cs cc = (secs', cs', cc')"
        by (simp add: Let_def)
      from Cons.IH [OF _ _ this] Cons.prems(1,2) show ?thesis by simp
    qed
  qed
qed

text \<open>
  Claim C6: for every input text without a line that, trimmed, equals one of the four
  section names, partitioning yields all four sections empty; and the lines before the
  first recognised heading contribute nothing: a text whose first lines are such lines
  partitions as the text after them does.
\<close>

theorem no_heading_all_empty:
  assumes "\<forall>l\<in>set (str_split 10 pre). strip l \<notin> set section_names"
  shows "partition_sections pre =
           [(py ''Professional Profile'', []), (py ''Recent Experience'', []),
            (py ''Education'', []), (py ''Skills'', [])] \<and>
         partition_sections (pre @ 10 # rest) = partition_sections rest"
proof -
  have nh: "\<forall>l\<in>set (str_split 10 pre). strip l \<notin> set (map fst initial_sections)"
    using assms by (simp add: keys_initial_sections)
  have s: "scan_lines (str_split 10 pre) initial_sections None [] = (initial_sections, None, [])"
    using scan_lines_no_heading [OF nh, of None "[]"] by simp
  have "partition_sections pre = initial_sections"
    by (simp add: partition_sections_def s)
  moreover have "partition_sections (pre @ 10 # rest) = partition_sections rest"
    by (simp add: partition_sections_def str_split_append scan_lines_append s)
  ultimately show ?thesis
    by (simp add: initial_sections_def section_names_def)
qed

theorem no_heading_all_empty_witness:
  "partition_sections (py ''Curriculum vitae'' @ nl @ py ''Jane Doe'') =
     [(py ''Professional Profile'', []), (py ''Recent Experience'', []),
      (py ''Education'', []), (py ''Skills'', [])] \<and>
   partition_sections
     ((py ''Curriculum vitae'' @ nl @ py ''Jane Doe'') @ 10 # py ''Skills'' @ nl @ py ''Go'') =
     partition_sections (py ''Skills'' @ nl @ py ''Go'')"
proof -
  have h: "\<forall>l\<in>set (str_split 10 (py ''Curriculum vitae'' @ nl @ py ''Jane Doe'')).
             strip l \<notin> set section_names"
    by (simp add: py_def nl_def strip_def isspace_def section_names_def)
  show ?thesis
    using no_heading_all_empty [OF h, of "py ''Skills'' @ nl @ py ''Go''"] by simp
qed



lemma flush_other:
  "cs \<noteq> Some n \<Longrightarrow> map_of (flush secs cs cc) n = map_of secs n"
  by (cases cs) (auto simp: update_conv')

text \<open>
  Claim C10: when a recognised section name occurs more than once in the input, each
  time with body lines that are not blank, the partitioned content of that section is
  only the lines after its last occurrence: the later flush overwrites what an earlier
  occurrence stored.  Stated on the lines of the input: \<open>h\<close> is the last line that
  trims to the name \<open>n\<close>, \<open>body\<close> the lines up to the next heading (or the end),
  \<open>pre\<close> anything, earlier occurrences of \<open>n\<close> included.
\<close>

theorem last_occurrence_overwrites:
  assumes split: "str_split 10 content = pre @ h # body @ post"
    and h: "strip h = n" and n: "n \<in> set section_names"
    and body: "\<forall>l\<in>set body. strip l \<notin> set section_names"
    and nonempty: "filter (\<lambda>t. t \<noteq> []) (map strip body) \<noteq> []"
    and post_hd: "post = [] \<or> strip (hd post) \<in> set section_names"
    and post: "\<forall>l\<in>set post. strip l \<noteq> n"
  shows "map_of (partition_sections content) n =
           Some (str_join nl (filter (\<lambda>t. t \<noteq> []) (map strip body)))"
proof -
  let ?B = "filter (\<lambda>t. t \<noteq> []) (map strip body)"
  obtain s1 c1 k1 where pre: "scan_lines pre initial_sections None [] = (s1, c1, k1)"
    by (cases "scan_lines pre initial_sections None []") auto
  have k1: "map fst s1 = section_names" and c1: "\<forall>s. c1 = Some s \<longrightarrow> s \<in> set (map fst initial_sections)"
    using scan_lines_keys [OF _ pre] by (simp_all add: keys_initial_sections)
  let ?s2 = "flush s1 c1 k1"
  have k2: "map fst ?s2 = section_names"
    using flush_keys [of c1 s1 k1] c1 k1 by (simp add: keys_initial_sections)
  have n_ne: "n \<noteq> []"
    using n by (rule section_names_nonempty)
  have hb: "scan_lines (h # body) s1 c1 k1 = (?s2, Some n, ?B)"
    using scan_lines_no_heading [of body ?s2 "Some n" "[]"] body h n k1 k2 n_ne
    by (simp add: Let_def)
  have upto: "scan_lines (pre @ h # body) initial_sections None [] = (?s2, Some n, ?B)"
    using scan_lines_append [of pre "h # body"] pre hb by simp
  let ?s3 = "AList.update n (str_join nl ?B) ?s2"
  have s3: "map_of ?s3 n = Some (str_join nl ?B)"
    by (simp add: update_conv')
  have k3: "map fst ?s3 = section_names"
    using k2 n by (simp add: update_keys)
  show ?thesis
  proof (cases post)
    case Nil
    with split upto have "partition_sections content = flush ?s2 (Some n) ?B"
      by (simp add: partition_sections_def)
    with nonempty n_ne s3 show ?thesis by simp
  next
    case (Cons h2 rest2)
    with post_hd post have h2: "strip h2 \<in> set section_names" "strip h2 \<noteq> n"
      by simp_all
    obtain s' c' k' where rest2: "scan_lines rest2 ?s3 (Some (strip h2)) [] = (s', c', k')"
      by (cases "scan_lines rest2 ?s3 (Some (strip h2)) []") auto
    have "\<forall>l\<in>set rest2. strip l \<noteq> n"
      using post Cons by simp
    from scan_lines_other_section [OF this _ rest2] h2 s3
    have fin: "map_of s' n = Some (str_join nl ?B)" "c' \<noteq> Some n"
      by simp_all
    have "scan_lines (h2 # rest2) ?s2 (Some n) ?B = (s', c', k')"
      using h2 k2 rest2 nonempty n_ne by (simp add: Let_def)
    then have "scan_lines (str_split 10 content) initial_sections None [] = (s', c', k')"
      using scan_lines_append [of "pre @ h # body" "h2 # rest2"] upto split Cons by simp
    then have "partition_sections content = flush s' c' k'"
      by (simp add: partition_sections_def)
    with fin flush_other [of c' n s' k'] show ?thesis by simp
  qed
qed

theorem last_occurrence_overwrites_witness:
  "map_of
     (partition_sections
        (py ''Skills'' @ nl @ py ''Python'' @ nl @ py ''Skills'' @ nl @ py ''Go'' @ nl @
         py ''Education'' @ nl @ py ''MIT''))
     (py ''Skills'') = Some (py ''Go'')"
proof -
  have s: "str_split 10
        (py ''Skills'' @ nl @ py ''Python'' @ nl @ py ''Skills'' @ nl @ py ''Go'' @ nl @
         py ''Education'' @ nl @ py ''MIT'') =
      [py ''Skills'', py ''Python''] @ py ''Skills'' # [py ''Go''] @ [py ''Education'', py ''MIT'']"
    by (simp add: py_def nl_def)
  have st: "strip (py ''Skills'') = py ''Skills''" "strip (py ''Go'') = py ''Go''"
    "strip (py ''Education'') = py ''Education''" "strip (py ''MIT'') = py ''MIT''"
    by (simp_all add: py_def strip_def isspace_def)
  have n: "py ''Skills'' \<in> set section_names" "py ''Education'' \<in> set section_names"
    "py ''Go'' \<notin> set section_names"
    by (simp_all add: section_names_def py_def)
  have ne: "py ''Go'' \<noteq> []" "py ''Education'' \<noteq> py ''Skills''" "py ''MIT'' \<noteq> py ''Skills''"
    by (simp_all add: py_def)
  show ?thesis
    using last_occurrence_overwrites [OF s st(1) n(1)] st n ne by simp
qed

section \<open>The lines of a section keep their order\<close>

lemma closed_block_snoc:
  assumes "closed_block seen n c"
  shows "closed_block (seen @ [l]) n c"
proof -
  from assms obtain pre h body post where
    "seen = pre @ h # body @ post" "strip h = n"
    "\<forall>l\<in>set body. strip l \<notin> set section_names"
    "post \<noteq> []" "strip (hd post) \<in> set section_names"
    "c = str_join nl (filter (\<lambda>t. t \<noteq> []) (map strip body))"
    unfolding closed_block_def by blast
  then have "seen @ [l] = pre @ h # body @ (post @ [l]) \<and> strip h = n \<and>
        (\<forall>l\<in>set body. strip l \<notin> set section_names) \<and>
        post @ [l] \<noteq> [] \<and> strip (hd (post @ [l])) \<in> set section_names \<and>
        c = str_join nl (filter (\<lambda>t. t \<noteq> []) (map strip body))"
    by simp
  then show ?thesis
    unfolding closed_block_def by blast
qed

lemma open_block_close:
  assumes "open_block seen n cc" and "strip l \<in> set section_names"
  shows "closed_block (seen @ [l]) n (str_join nl cc)"
proof -
  from assms(1) obtain pre h body where
    "seen = pre @ h # body" "strip h = n"
    "\<forall>l\<in>set body. strip l \<notin> set section_names"
    "cc = filter (\<lambda>t. t \<noteq> []) (map strip body)"
    unfolding open_block_def by blast
  with assms(2) have "seen @ [l] = pre @ h # body @ [l] \<and> strip h = n \<and>
        (\<forall>l\<in>set body. strip l \<notin> set section_names) \<and>
        [l] \<noteq> [] \<and> strip (hd [l]) \<in> set section_names \<and>
        str_join nl cc = str_join nl (filter (\<lambda>t. t \<noteq> []) (map strip body))"
    by simp
  then show ?thesis
    unfolding closed_block_def by blast
qed

lemma open_block_snoc:
  assumes "open_block seen n cc" and "strip l \<notin> set section_names"
  shows "open_block (seen @ [l]) n (if strip l \<noteq> [] then cc @ [strip l] else cc)"
proof -
  from assms(1) obtain pre h body where
    "seen = pre @ h # body" "strip h = n"
    "\<forall>l\<in>set body. strip l \<notin> set section_names"
    "cc = filter (\<lambda>t. t \<noteq> []) (map strip body)"
    unfolding open_block_def by blast
  with assms(2) have "seen @ [l] = pre @ h # (body @ [l]) \<and> strip h = n \<and>
        (\<forall>l\<in>set (body @ [l]). strip l \<notin> set section_names) \<and>
        (if strip l \<noteq> [] then cc @ [strip l] else cc) =
          filter (\<lambda>t. t \<noteq> []) (map strip (body @ [l]))"
    by simp
  then show ?thesis
    unfolding open_block_def by blast
qed

lemma open_block_start: "open_block (seen @ [l]) (strip l) []"
proof -
  have "seen @ [l] = seen @ l # [] \<and> strip l = strip l \<and>
        (\<forall>l\<in>set []. strip l \<notin> set section_names) \<and>
        [] = filter (\<lambda>t. t \<noteq> []) (map strip [])"
    by simp
  then show ?thesis
    unfolding open_block_def by blast
qed

lemma scan_inv_step:
  assumes inv: "scan_inv seen secs cs cc"
    and step: "scan_lines [l] secs cs cc = (s', c', k')"
  shows "scan_inv (seen @ [l]) s' c' k'"
proof -
  from inv have keys: "map fst secs = section_names"
    and closed: "\<And>n c. map_of secs n = Some c \<Longrightarrow> c \<noteq> [] \<Longrightarrow> closed_block seen n c"
    and opened: "\<And>n. cs = Some n \<Longrightarrow> n \<in> set section_names \<and> open_block seen n cc"
    unfolding scan_inv_def by blast+
  show ?thesis
  proof (cases "strip l \<in> set section_names")
    case True
    with step keys have res: "s' = flush secs cs cc" "c' = Some (strip l)" "k' = []"
      by (simp_all add: Let_def)
    have k': "map fst s' = section_names"
      using flush_keys [of cs secs cc] opened keys res by simp
    have "closed_block (seen @ [l]) n c" if m: "map_of s' n = Some c" and ne: "c \<noteq> []" for n c
    proof (cases "\<exists>m. cs = Some m \<and> m \<noteq> [] \<and> cc \<noteq> [] \<and> m = n")
      case True
      then have "s' = AList.update n (str_join nl cc) secs" "cs = Some n"
        using res by auto
      with m have "c = str_join nl cc"
        by (simp add: update_conv')
      with opened [OF \<open>cs = Some n\<close>] \<open>strip l \<in> set section_names\<close> show ?thesis
        by (simp add: open_block_close)
    next
      case False
      then have "map_of s' n = map_of secs n"
        using res by (cases cs) (auto simp: update_conv')
      with m ne closed show ?thesis
        by (simp add: closed_block_snoc)
    qed
    with k' True res show ?thesis
      unfolding scan_inv_def by (simp add: open_block_start)
  next
    case False
    have cl: "closed_block (seen @ [l]) n c" if "map_of secs n = Some c" "c \<noteq> []" for n c
      using closed [OF that] by (rule closed_block_snoc)
    show ?thesis
    proof (cases "strip l \<noteq> [] \<and> truthy cs")
      case True
      with False step keys have res: "s' = secs" "c' = cs" "k' = cc @ [strip l]"
        by (simp_all add: Let_def)
      have "open_block (seen @ [l]) n k'" if "cs = Some n" for n
        using open_block_snoc [of seen n cc l] opened [OF that] False True res by simp
      with keys cl res opened show ?thesis
        unfolding scan_inv_def by simp
    next
      case f2: False
      with False step keys have res: "s' = secs" "c' = cs" "k' = cc"
        by (simp_all add: Let_def)
      have "open_block (seen @ [l]) n k'" if "cs = Some n" for n
      proof -
        from opened [OF that] have "n \<noteq> []" "open_block seen n cc"
          by (simp_all add: section_names_nonempty)
        with that f2 have "strip l = []" by simp
        with open_block_snoc [of seen n cc l] \<open>open_block seen n cc\<close> False res
        show ?thesis by simp
      qed
      with keys cl res opened show ?thesis
        unfolding scan_inv_def by simp
    qed
  qed
qed

lemma scan_inv_scan:
  "scan_inv seen secs cs cc \<Longrightarrow> scan_lines ls secs cs cc = (s', c', k') \<Longrightarrow>
   scan_inv (seen @ ls) s' c' k'"
proof (induction ls arbitrary: seen secs cs cc)
  case Nil
  then show ?case by simp
next
  case (Cons l ls)
  obtain s1 c1 k1 where one: "scan_lines [l] secs cs cc = (s1, c1, k1)"
    by (cases "scan_lines [l] secs cs cc") auto
  have "scan_lines (l # ls) secs cs cc = scan_lines ls s1 c1 k1"
    using scan_lines_append [of "[l]" ls secs cs cc] one by simp
  with Cons.prems(2) have "scan_lines ls s1 c1 k1 = (s', c', k')"
    by simp
  from Cons.IH [OF scan_inv_step [OF Cons.prems(1) one] this] show ?case
    by simp
qed

lemma scan_inv_initial: "scan_inv [] initial_sections None []"
  unfolding scan_inv_def
  by (auto simp: keys_initial_sections initial_sections_def section_names_def split: if_splits)

lemma str_split_no_sep: "sep \<notin> set s \<Longrightarrow> str_split sep s = [s]"
  by (induction s) auto

lemma in_str_split_no_sep: "l \<in> set (str_split sep s) \<Longrightarrow> sep \<notin> set l"
proof (induction s arbitrary: l)
  case Nil
  then show ?case by simp
next
  case (Cons c cs)
  then show ?case
    by (cases "str_split sep cs") (auto split: if_splits)
qed

lemma set_strip: "set (strip s) \<subseteq> set s"
proof
  fix x
  assume "x \<in> set (strip s)"
  then have "x \<in> set (dropWhile isspace (rev (dropWhile isspace s)))"
    by (simp add: strip_def)
  then have "x \<in> set (rev (dropWhile isspace s))"
    by (rule set_dropWhileD)
  then have "x \<in> set (dropWhile isspace s)"
    by simp
  then show "x \<in> set s"
    by (rule set_dropWhileD)
qed

lemma str_split_join:
  "xs \<noteq> [] \<Longrightarrow> \<forall>x\<in>set xs. sep \<notin> set x \<Longrightarrow> str_split sep (str_join [sep] xs) = xs"
proof (induction "[sep]" xs rule: str_join.induct)
  case 1
  then show ?case by simp
next
  case (2 x)
  then show ?case by (simp add: str_split_no_sep)
next
  case (3 x y ys)
  then show ?case by (simp add: str_split_append str_split_no_sep)
qed

text \<open>
  Claim C7: for every input text, the lines of a recognised section's partitioned
  content are the lines of the input attributed to it, in the same relative order, none
  reordered and none removed as a duplicate: a section's content that is not empty is
  the newline join of the trimmed non-blank lines of one block of the input (a heading line
  that trims to the section's name, and the lines after it up to the next heading or the
  end), taken in the input's order, and splitting the content on newlines gives exactly
  those lines back.
\<close>

theorem section_lines_in_input_order:
  assumes m: "map_of (partition_sections content) n = Some c" and ne: "c \<noteq> []"
  shows "\<exists>pre h body post.
           str_split 10 content = pre @ h # body @ post \<and> strip h = n \<and>
           (\<forall>l\<in>set body. strip l \<notin> set section_names) \<and>
           (post = [] \<or> strip (hd post) \<in> set section_names) \<and>
           c = str_join nl (filter (\<lambda>t. t \<noteq> []) (map strip body)) \<and>
           str_split 10 c = filter (\<lambda>t. t \<noteq> []) (map strip body)"
proof -
  let ?ls = "str_split 10 content"
  obtain s' c' k' where sc: "scan_lines ?ls initial_sections None [] = (s', c', k')"
    by (cases "scan_lines ?ls initial_sections None []") auto
  from scan_inv_scan [OF scan_inv_initial sc]
  have closed: "\<And>n c. map_of s' n = Some c \<Longrightarrow> c \<noteq> [] \<Longrightarrow> closed_block ?ls n c"
    and opened: "\<And>n. c' = Some n \<Longrightarrow> open_block ?ls n k'"
    unfolding scan_inv_def by simp_all
  have p: "partition_sections content = flush s' c' k'"
    by (simp add: partition_sections_def sc)
  have "\<exists>pre h body post.
           ?ls = pre @ h # body @ post \<and> strip h = n \<and>
           (\<forall>l\<in>set body. strip l \<notin> set section_names) \<and>
           (post = [] \<or> strip (hd post) \<in> set section_names) \<and>
           c = str_join nl (filter (\<lambda>t. t \<noteq> []) (map strip body))"
  proof (cases "c' = Some n \<and> n \<noteq> [] \<and> k' \<noteq> []")
    case True
    with p m have "c = str_join nl k'"
      by (simp add: update_conv')
    moreover from opened True obtain pre h body where
      "?ls = pre @ h # body @ []" "strip h = n"
      "\<forall>l\<in>set body. strip l \<notin> set section_names"
      "k' = filter (\<lambda>t. t \<noteq> []) (map strip body)"
      unfolding open_block_def by auto
    ultimately show ?thesis by blast
  next
    case False
    then have "map_of (flush s' c' k') n = map_of s' n"
      by (cases c') (auto simp: update_conv')
    with p m ne closed have "closed_block ?ls n c" by simp
    then show ?thesis
      unfolding closed_block_def by blast
  qed
  then obtain pre h body post where d:
    "?ls = pre @ h # body @ post" "strip h = n"
    "\<forall>l\<in>set body. strip l \<notin> set section_names"
    "post = [] \<or> strip (hd post) \<in> set section_names"
    "c = str_join nl (filter (\<lambda>t. t \<noteq> []) (map strip body))"
    by blast
  let ?B = "filter (\<lambda>t. t \<noteq> []) (map strip body)"
  have "10 \<notin> set x" if "x \<in> set ?B" for x
  proof -
    from that obtain l where "l \<in> set body" "x = strip l" by auto
    with d(1) have "l \<in> set ?ls" by simp
    then have "10 \<notin> set l" by (rule in_str_split_no_sep)
    with set_strip [of l] \<open>x = strip l\<close> show ?thesis by auto
  qed
  moreover have "?B \<noteq> []"
    using d(5) ne by auto
  ultimately have "str_split 10 (str_join [10] ?B) = ?B"
    by (simp add: str_split_join)
  with d show ?thesis
    by (auto simp: nl_def)
qed

theorem section_lines_in_input_order_witness:
  "\<exists>pre h body post.
     str_split 10 (py ''Skills'' @ nl @ py '' Go'' @ nl @ py ''Rust'' @ nl @ py ''Go'') =
       pre @ h # body @ post \<and> strip h = py ''Skills'' \<and>
     (\<forall>l\<in>set body. strip l \<notin> set section_names) \<and>
     (post = [] \<or> strip (hd post) \<in> set section_names) \<and>
     py ''Go'' @ nl @ py ''Rust'' @ nl @ py ''Go'' =
       str_join nl (filter (\<lambda>t. t \<noteq> []) (map strip body)) \<and>
     str_split 10 (py ''Go'' @ nl @ py ''Rust'' @ nl @ py ''Go'') =
       filter (\<lambda>t. t \<noteq> []) (map strip body)"
proof -
  have m: "map_of
       (partition_sections (py ''Skills'' @ nl @ py '' Go'' @ nl @ py ''Rust'' @ nl @ py ''Go''))
       (py ''Skills'') = Some (py ''Go'' @ nl @ py ''Rust'' @ nl @ py ''Go'')"
    by (simp add: partition_sections_def initial_sections_def section_names_def py_def nl_def
        strip_def isspace_def Let_def)
  have ne: "py ''Go'' @ nl @ py ''Rust'' @ nl @ py ''Go'' \<noteq> []"
    by (simp add: py_def)
  show ?thesis
    using section_lines_in_input_order [OF m ne] .
qed

section \<open>The document writer\<close>

lemma run_text_items: "concat (map item_text (text_items t)) = cr_to_lf t"
  by (induction t) (auto simp: cr_to_lf_def split: list.splits run_item.splits)

lemma set_text_error_empty: "set_text_error [] = None"
  by (simp add: set_text_error_def)

lemma section_names_accepted:
  "n \<in> set section_names \<Longrightarrow> set_text_error n = None \<and> cr_to_lf n = n"
  by (auto simp: section_names_def py_def set_text_error_def add_t_error_def surrogate_def
      xml_char_def cr_to_lf_def)

lemma add_lines_Inr:
  "add_lines doc ls = Inr doc' \<Longrightarrow> doc' = doc @ concat (map line_paragraphs ls)"
proof (induction ls arbitrary: doc)
  case Nil
  then show ?case by simp
next
  case (Cons l ls)
  show ?case
  proof (cases "strip l = []")
    case True
    with Cons show ?thesis
      by (simp add: line_paragraphs_def)
  next
    case False
    let ?t = "line_text l"
    let ?sty = "if startswith (strip l) bullet_marker then list_bullet else None"
    from False Cons.prems obtain doc1 where
      a: "add_paragraph doc ?t ?sty = Inr doc1" and r: "add_lines doc1 ls = Inr doc'"
      by (auto simp: line_text_def split: if_splits sum.splits)
    from a have "doc1 = doc @ [new_paragraph ?t ?sty]"
      by (cases "set_text_error ?t") (simp_all add: add_paragraph_def)
    with Cons.IH [OF r] False show ?thesis
      by (simp add: line_paragraphs_def line_text_def)
  qed
qed

lemma add_lines_accepted:
  "\<forall>l\<in>set ls. set_text_error (line_text l) = None \<Longrightarrow>
   add_lines doc ls = Inr (doc @ concat (map line_paragraphs ls))"
  by (induction ls arbitrary: doc)
    (auto simp: line_paragraphs_def line_text_def add_paragraph_def split: if_splits)

lemma add_items_Inr:
  "add_items doc items = Inr doc' \<Longrightarrow>
   doc' = doc @ map (\<lambda>item. new_paragraph item list_bullet) items"
proof (induction items arbitrary: doc)
  case Nil
  then show ?case by simp
next
  case (Cons i items)
  from Cons.prems obtain doc1 where
    a: "add_paragraph doc i list_bullet = Inr doc1" and r: "add_items doc1 items = Inr doc'"
    by (auto split: sum.splits)
  from a have "doc1 = doc @ [new_paragraph i list_bullet]"
    by (simp add: add_paragraph_def split: option.splits)
  with Cons.IH [OF r] show ?case by simp
qed

lemma write_section_with_Inr:
  assumes "write_section_with fmt w title content = Inr w'"
  shows "\<exists>f log'. fmt (llm_log w) title content = (Inr f, log') \<and>
           set_text_error title = None \<and>
           w' = w\<lparr>document :=
                    document w @ heading_paragraph title # body_paragraphs f @ [spacer_paragraph],
                  llm_log := log'\<rparr>"
proof -
  obtain r log' where f: "fmt (llm_log w) title content = (r, log')"
    by (cases "fmt (llm_log w) title content") auto
  with assms obtain fc where r: "r = Inr fc"
    by (cases r) (auto simp: write_section_with_def)
  from assms f r have t: "set_text_error title = None"
    by (auto simp: write_section_with_def add_heading_def split: option.splits)
  let ?doc1 = "document w @ [heading_paragraph title]"
  from assms f r t obtain doc2 where
    b: "(case fc of PyStr s \<Rightarrow> add_lines ?doc1 (str_split 10 s)
         | PyList items \<Rightarrow> add_items ?doc1 items | PyOther \<Rightarrow> Inr ?doc1) = Inr doc2"
    and w': "w' = w\<lparr>document := doc2 @ [spacer_paragraph], llm_log := log'\<rparr>"
    by (auto simp: write_section_with_def add_heading_def add_paragraph_def
        set_text_error_empty spacer_paragraph_def split: sum.splits)
  from b have "doc2 = ?doc1 @ body_paragraphs fc"
    by (cases fc) (auto simp: body_paragraphs_def dest: add_lines_Inr add_items_Inr)
  with f r t w' show ?thesis by simp
qed

lemma write_section_with_Inl:
  "fmt (llm_log w) title content = (Inl e, log') \<Longrightarrow> write_section_with fmt w title content = Inl e"
  by (simp add: write_section_with_def)

lemma strip_empty_iff: "strip s = [] \<longleftrightarrow> (\<forall>c\<in>set s. isspace c)"
proof
  assume "strip s = []"
  then have "\<forall>c\<in>set (dropWhile isspace s). isspace c"
    by (simp add: strip_def dropWhile_eq_Nil_conv)
  then have "dropWhile isspace s = []"
    using hd_dropWhile [of isspace s] by (cases "dropWhile isspace s") auto
  then show "\<forall>c\<in>set s. isspace c"
    by (simp add: dropWhile_eq_Nil_conv)
next
  assume "\<forall>c\<in>set s. isspace c"
  then have d: "dropWhile isspace s = []"
    by simp
  show "strip s = []"
    unfolding strip_def d by simp
qed

lemma in_str_split_subset: "\<forall>l\<in>set (str_split sep s). set l \<subseteq> set s"
  by (induction s) (auto split: list.splits)

lemma blank_lines: "strip s = [] \<Longrightarrow> l \<in> set (str_split sep s) \<Longrightarrow> strip l = []"
  using in_str_split_subset [of sep s] by (auto simp: strip_empty_iff)

lemma add_lines_blank:
  assumes "strip s = []"
  shows "add_lines doc (str_split 10 s) = Inr doc"
proof -
  have "\<forall>l\<in>set (str_split 10 s). set_text_error (line_text l) = None"
    using blank_lines [OF assms] by (simp add: line_text_def set_text_error_empty)
  moreover have "concat (map line_paragraphs (str_split 10 s)) = []"
    using blank_lines [OF assms] by (simp add: line_paragraphs_def)
  ultimately show ?thesis
    using add_lines_accepted [of "str_split 10 s" doc] by simp
qed

lemma not_heading_new_paragraph: "\<not> is_heading (new_paragraph t sty)"
  by (simp add: is_heading_def new_paragraph_def)

lemma heading_titles_body: "heading_titles (body_paragraphs f) = []"
  by (cases f)
    (auto simp: heading_titles_def body_paragraphs_def line_paragraphs_def
      not_heading_new_paragraph filter_empty_conv)

lemma heading_titles_append: "heading_titles (a @ b) = heading_titles a @ heading_titles b"
  by (simp add: heading_titles_def)

lemma heading_titles_section:
  "heading_titles (heading_paragraph title # body_paragraphs f @ [spacer_paragraph]) =
     [cr_to_lf title]"
proof -
  have "heading_titles [heading_paragraph title] = [cr_to_lf title]"
    by (simp add: heading_titles_def is_heading_def heading_paragraph_def run_text_def
        run_text_items)
  moreover have "heading_titles [spacer_paragraph] = []"
    by (simp add: heading_titles_def spacer_paragraph_def not_heading_new_paragraph)
  ultimately show ?thesis
    using heading_titles_append [of "[heading_paragraph title]" "body_paragraphs f @ [spacer_paragraph]"]
    by (simp add: heading_titles_append heading_titles_body)
qed

lemma write_section_with_titles:
  assumes "write_section_with fmt w title content = Inr w'"
  shows "heading_titles (document w') = heading_titles (document w) @ [cr_to_lf title]"
proof -
  from write_section_with_Inr [OF assms] obtain f where
    "document w' =
       document w @ heading_paragraph title # body_paragraphs f @ [spacer_paragraph]"
    by auto
  then show ?thesis
    by (simp only: heading_titles_append heading_titles_section)
qed

lemma write_sections_titles:
  "write_sections fmt w secs = Inr w' \<Longrightarrow>
   heading_titles (document w') =
     heading_titles (document w) @ map (\<lambda>s. cr_to_lf (fst s)) (filter (\<lambda>(n, c). c \<noteq> []) secs)"
proof (induction secs arbitrary: w)
  case Nil
  then show ?case by simp
next
  case (Cons sc rest)
  obtain name content where sc: "sc = (name, content)"
    by (cases sc) auto
  show ?case
  proof (cases "content = []")
    case True
    with Cons sc show ?thesis by simp
  next
    case False
    with Cons.prems sc obtain w1 where
      w1: "write_section_with fmt w name content = Inr w1"
      and rest: "write_sections fmt w1 rest = Inr w'"
      by (auto split: sum.splits)
    from Cons.IH [OF rest] write_section_with_titles [OF w1] False sc show ?thesis
      by simp
  qed
qed

lemma partition_sections_keys: "map fst (partition_sections content) = section_names"
proof -
  obtain s' c' k' where sc: "scan_lines (str_split 10 content) initial_sections None [] = (s', c', k')"
    by (cases "scan_lines (str_split 10 content) initial_sections None []") auto
  from scan_lines_keys [OF _ sc]
  have "map fst s' = section_names" "\<forall>s. c' = Some s \<longrightarrow> s \<in> set (map fst s')"
    by (simp_all add: keys_initial_sections)
  then show ?thesis
    using flush_keys [of c' s' k'] by (simp add: partition_sections_def sc)
qed

lemma section_titles_read_back:
  "map (\<lambda>s. cr_to_lf (fst s)) (filter P (partition_sections content)) =
     map fst (filter P (partition_sections content))"
proof (rule map_cong [OF refl])
  fix s
  assume "s \<in> set (filter P (partition_sections content))"
  then have "fst s \<in> set (map fst (partition_sections content))"
    by auto
  then show "cr_to_lf (fst s) = fst s"
    by (simp add: partition_sections_keys section_names_accepted)
qed

text \<open>
  Claim C5: for every input text, in whatever order the four section names occur in
  it, the sections of the output document are in the canonical order (Professional
  Profile, Recent Experience, Education, Skills), not in the input's order.  The titles
  of the heading paragraphs of the written document are the names of the sections with
  non-empty content in the order of the dict, which is the canonical order; so they are
  a subsequence of the canonical list.  Stated for any formatter: \<open>format_resume\<close> is
  the instance with the class's method.
\<close>

theorem canonical_section_order:
  assumes "format_resume_with fmt content = Inr w"
  shows "heading_titles (document w) =
           map fst (filter (\<lambda>(n, c). c \<noteq> []) (partition_sections content)) \<and>
         map fst (partition_sections content) = section_names \<and>
         subseq (heading_titles (document w)) section_names \<and>
         saved w = Some (document w)"
proof -
  from assms obtain w0 where
    w0: "write_sections fmt ResumeWriter (partition_sections content) = Inr w0"
    and w: "w = save w0"
    by (auto simp: format_resume_with_def split: sum.splits)
  have "heading_titles (document ResumeWriter) = []"
    by (simp add: ResumeWriter_def heading_titles_def)
  with write_sections_titles [OF w0]
  have "heading_titles (document w0) =
      map fst (filter (\<lambda>(n, c). c \<noteq> []) (partition_sections content))"
    by (simp only: section_titles_read_back append_Nil)
  then have t: "heading_titles (document w) =
      map fst (filter (\<lambda>(n, c). c \<noteq> []) (partition_sections content))"
    by (simp add: w save_def)
  have "subseq (map fst (filter (\<lambda>(n, c). c \<noteq> []) (partition_sections content)))
      (map fst (partition_sections content))"
    by (intro subseq_map subseq_filter_left)
  with t show ?thesis
    by (simp add: partition_sections_keys w save_def)
qed

theorem canonical_section_order_witness:
  "\<exists>w. format_resume_with (\<lambda>log title content. (Inr (PyStr content), log))
         (py ''Skills'' @ nl @ py ''Go'' @ nl @ py ''Education'' @ nl @ py ''MIT'') = Inr w \<and>
       heading_titles (document w) = [py ''Education'', py ''Skills''] \<and>
       subseq (heading_titles (document w)) section_names"
proof -
  have p: "partition_sections (py ''Skills'' @ nl @ py ''Go'' @ nl @ py ''Education'' @ nl @ py ''MIT'') =
      [(py ''Professional Profile'', []), (py ''Recent Experience'', []),
       (py ''Education'', py ''MIT''), (py ''Skills'', py ''Go'')]"
    by (simp add: partition_sections_def initial_sections_def section_names_def py_def nl_def
        strip_def isspace_def Let_def)
  obtain w where h: "format_resume_with (\<lambda>log title content. (Inr (PyStr content), log))
         (py ''Skills'' @ nl @ py ''Go'' @ nl @ py ''Education'' @ nl @ py ''MIT'') = Inr w"
    by (simp only: format_resume_with_def p)
      (simp add: write_section_with_def py_def add_heading_def add_paragraph_def
        set_text_error_def add_t_error_def surrogate_def xml_char_def strip_def isspace_def
        startswith_def bullet_marker_def)
  from canonical_section_order [OF h] have
    t: "heading_titles (document w) =
      map fst (filter (\<lambda>(n, c). c \<noteq> [])
        (partition_sections (py ''Skills'' @ nl @ py ''Go'' @ nl @ py ''Education'' @ nl @ py ''MIT'')))"
    and s: "subseq (heading_titles (document w)) section_names"
    by blast+
  from t have "heading_titles (document w) = [py ''Education'', py ''Skills'']"
    unfolding p by (simp add: py_def)
  with h s show ?thesis by blast
qed

section \<open>A section whose formatted content is blank\<close>

text \<open>
  Claim C1, as stated: for every title and every content whose formatted result is
  blank after trimming, \<open>write_section\<close> adds nothing to the document.  It has no
  such guard: called with the empty content, for which the formatter returns the empty
  string, it appends the heading paragraph and the spacer paragraph.
\<close>

theorem blank_section_counterexample:
  "\<not> (\<forall>client w title content s log'.
        format_section_content client (llm_log w) title content = (Inr (PyStr s), log') \<and>
        strip s = [] \<longrightarrow>
        (\<exists>w'. write_section client w title content = Inr w' \<and> document w' = document w))"
proof
  assume a: "\<forall>client w title content s log'.
        format_section_content client (llm_log w) title content = (Inr (PyStr s), log') \<and>
        strip s = [] \<longrightarrow>
        (\<exists>w'. write_section client w title content = Inr w' \<and> document w' = document w)"
  have "format_section_content (\<lambda>log p. Inr PyOther) (llm_log ResumeWriter) (py ''Skills'') [] =
      (Inr (PyStr []), []) \<and> strip [] = []"
    by (simp add: format_section_content_def ResumeWriter_def strip_def)
  with a have "\<exists>w'. write_section (\<lambda>log p. Inr PyOther) ResumeWriter (py ''Skills'') [] = Inr w' \<and>
      document w' = document ResumeWriter"
    by blast
  then show False
    by (simp add: write_section_def write_section_with_def format_section_content_def
        ResumeWriter_def add_heading_def add_paragraph_def set_text_error_def add_t_error_def
        surrogate_def xml_char_def py_def strip_def)
qed

text \<open>
  Claim C1, amended: when the formatted result is a string that is blank after
  trimming, \<open>write_section\<close> appends no body paragraph, and appends the heading paragraph
  and the spacer paragraph, these two only.  (That is for a title python-docx accepts, as
  it does the four section names; for a title with a character that is not XML compatible
  \<open>add_run\<close> raises and so does \<open>write_section\<close>.)  The guard is in \<open>format_resume\<close>,
  on the partitioned content: a section whose content is empty is passed over,
  \<open>write_section\<close> is not called for it.
\<close>

theorem blank_section_heading_and_spacer:
  "(fmt (llm_log w) title content = (Inr (PyStr s), log') \<and> strip s = [] \<longrightarrow>
      write_section_with fmt w title content =
        (case set_text_error title of
           None \<Rightarrow>
             Inr (w\<lparr>document := document w @ [heading_paragraph title, spacer_paragraph],
                    llm_log := log'\<rparr>)
         | Some e \<Rightarrow> Inl e)) \<and>
   (title \<in> set section_names \<longrightarrow> set_text_error title = None) \<and>
   write_sections fmt w ((title, []) # rest) = write_sections fmt w rest"
  by (simp add: write_section_with_def add_heading_def add_lines_blank add_paragraph_def
      set_text_error_empty spacer_paragraph_def section_names_accepted split: option.splits)

theorem blank_section_heading_and_spacer_witness:
  "write_section_with (\<lambda>log title content. (Inr (PyStr (py ''  '')), log))
     ResumeWriter (py ''Skills'') (py ''Go'') =
     Inr (ResumeWriter\<lparr>document :=
            document ResumeWriter @ [heading_paragraph (py ''Skills''), spacer_paragraph],
          llm_log := []\<rparr>)"
proof -
  have n: "py ''Skills'' \<in> set section_names"
    by (simp add: section_names_def)
  show ?thesis
    using blank_section_heading_and_spacer
      [of "\<lambda>log title content. (Inr (PyStr (py ''  '')), log)" ResumeWriter "py ''Skills''"
        "py ''Go''" "py ''  ''" "[]"] n
    by (simp add: py_def strip_def isspace_def ResumeWriter_def)
qed

section \<open>The bullet marker of a string result\<close>

text \<open>
  A line of a string result that is not blank and does not begin with the marker gives
  one plain paragraph with the trimmed line, when python-docx accepts the text.
\<close>

lemma line_without_marker:
  "strip line \<noteq> [] \<Longrightarrow> \<not> startswith (strip line) bullet_marker \<Longrightarrow>
   set_text_error (strip line) = None \<Longrightarrow>
   add_lines doc [line] = Inr (doc @ [new_paragraph (strip line) None])"
  by (simp add: add_paragraph_def)

text \<open>
  Claim C2 says that a line whose trimmed text begins with the bullet marker gives a
  bullet-list-styled paragraph whose text is the line with the marker stripped, and any
  other line a plain paragraph.  The code tests for the marker and strips it, but not the
  same thing: the literal of line 128 has three code points (U+00E2, U+20AC, U+00A2, what
  the bullet U+2022 becomes when its UTF-8 bytes are read as Windows-1252) and line 130
  drops one (\<open>[1:]\<close>).  On the result of the two lines \<open>marker Led a team\<close> and
  \<open>bullet Built tools\<close>, the first gives a List Bullet paragraph whose text still begins
  with U+20AC U+00A2, and the second, which begins with the bullet character itself, is
  not detected and gives a plain paragraph with the bullet kept.
\<close>

theorem bullet_marker_not_stripped:
  "write_section_with
     (\<lambda>log title content.
        (Inr (PyStr (bullet_marker @ py '' Led a team'' @ nl @ [8226] @ py '' Built tools'')), log))
     ResumeWriter (py ''Recent Experience'') (py ''work'') =
     Inr (ResumeWriter
       \<lparr>document :=
          [heading_paragraph (py ''Recent Experience''),
           new_paragraph ([8364, 162] @ py '' Led a team'') list_bullet,
           new_paragraph ([8226] @ py '' Built tools'') None,
           spacer_paragraph],
        llm_log := []\<rparr>)"
  by (simp add: write_section_with_def ResumeWriter_def add_heading_def add_paragraph_def
      set_text_error_def add_t_error_def surrogate_def xml_char_def spacer_paragraph_def
      bullet_marker_def py_def nl_def strip_def isspace_def startswith_def)

section \<open>The end-to-end scenario\<close>


section \<open>The fallback of \<open>get_llm\<close>, and failures at inference\<close>





end
